theory Spec2Isabelle
  imports Complex_Main "HOL-Library.Word" "HOL-Library.Multiset"
begin

section \<open>JavaScript strings\<close>

text \<open>
  A JavaScript string is a sequence of UTF-16 code units.  The literals of \<^verbatim>\<open>main.js\<close>
  that are not ASCII are written by their code units; all of them lie in the Basic
  Multilingual Plane, one code unit each.
\<close>

type_synonym jschar = "16 word"
type_synonym jsstring = "jschar list"

definition ascii :: "string \<Rightarrow> jsstring" where
  "ascii s = map of_char s"

definition newline :: jschar where "newline = 0x0A"
definition comma :: jschar where "comma = 0x2C"
definition dquote :: jschar where "dquote = 0x22"

text \<open>
  The column names and the country names of the source, by code unit: the key of the
  country column (U+56FD U+5BB6), the three names of the rewrite table (U+4E2D U+56FD,
  U+7F8E U+56FD and U+65E5 U+672C), the key of the industry column (eight code units,
  with ASCII parentheses) and the key of the profit-rate column (five code units).
\<close>

definition key_country :: jsstring where "key_country = [0x56FD, 0x5BB6]"
definition zh_China :: jsstring where "zh_China = [0x4E2D, 0x56FD]"
definition zh_USA :: jsstring where "zh_USA = [0x7F8E, 0x56FD]"
definition zh_Japan :: jsstring where "zh_Japan = [0x65E5, 0x672C]"
definition key_industry :: jsstring where
  "key_industry = [0x884C, 0x4E1A, 0x28, 0x4E2A, 0x4EBA, 0x89C2, 0x70B9, 0x29]"
definition key_rate :: jsstring where
  "key_rate = [0x5E73, 0x5747, 0x5229, 0x6DA6, 0x7387]"

text \<open>
  \<^verbatim>\<open>String.prototype.trim\<close> removes, at both ends, the code units of the ECMAScript
  productions WhiteSpace (TAB, VT, FF, ZWNBSP and the Unicode space separators) and
  LineTerminator (LF, CR, LS, PS).
\<close>

definition isTrimChar :: "jschar \<Rightarrow> bool" where
  "isTrimChar c \<longleftrightarrow> c \<in> set [0x9, 0xA, 0xB, 0xC, 0xD, 0x20, 0xA0, 0x1680,
     0x2000, 0x2001, 0x2002, 0x2003, 0x2004, 0x2005, 0x2006, 0x2007, 0x2008, 0x2009, 0x200A,
     0x2028, 0x2029, 0x202F, 0x205F, 0x3000, 0xFEFF]"

definition trimStart :: "jsstring \<Rightarrow> jsstring" where
  "trimStart s = dropWhile isTrimChar s"

definition trim :: "jsstring \<Rightarrow> jsstring" where
  "trim s = rev (dropWhile isTrimChar (rev (dropWhile isTrimChar s)))"

text \<open>
  \<^verbatim>\<open>s.split(sep)\<close> for a separator of one code unit (\<^verbatim>\<open>'\n'\<close> and \<^verbatim>\<open>','\<close> in the
  source): the pieces between the separators, in order; the empty string gives one
  empty piece.  The first case of the \<open>case\<close> below is never taken: a split is never
  empty.
\<close>

fun split :: "jschar \<Rightarrow> jsstring \<Rightarrow> jsstring list" where
  "split sep [] = [[]]"
| "split sep (c # cs) =
     (if c = sep then [] # split sep cs
      else (case split sep cs of [] \<Rightarrow> [[c]] | piece # pieces \<Rightarrow> (c # piece) # pieces))"

text \<open>\<^verbatim>\<open>s.replace(/"/g, '')\<close>: every double quote of the string is removed.\<close>

definition removeQuotes :: "jsstring \<Rightarrow> jsstring" where
  "removeQuotes s = filter (\<lambda>c. c \<noteq> dquote) s"

text \<open>\<^verbatim>\<open>s.includes(sub)\<close>: \<open>sub\<close> occurs in \<open>s\<close> as a contiguous run.\<close>

fun startsWith :: "jsstring \<Rightarrow> jsstring \<Rightarrow> bool" where
  "startsWith s [] = True"
| "startsWith [] (p # ps) = False"
| "startsWith (c # cs) (p # ps) = (c = p \<and> startsWith cs ps)"

fun includesStr :: "jsstring \<Rightarrow> jsstring \<Rightarrow> bool" where
  "includesStr [] sub = (sub = [])"
| "includesStr (c # cs) sub = (startsWith (c # cs) sub \<or> includesStr cs sub)"

section \<open>The CSV parser: \<^verbatim>\<open>fetchCsvData\<close>\<close>

text \<open>
  A row is the object \<^verbatim>\<open>{}\<close> after the assignments \<^verbatim>\<open>row[header] = values[index]\<close>:
  a map from its own property names to strings.  A fresh \<^verbatim>\<open>{}\<close> inherits from
  \<^verbatim>\<open>Object.prototype\<close>, whose accessor \<^verbatim>\<open>__proto__\<close> takes every assignment to that
  name (an assignment first looks the name up along the prototype chain and calls the
  setter it finds); that setter returns at once for a value that is neither an object nor
  \<^verbatim>\<open>null\<close> (ECMAScript, \<^verbatim>\<open>set Object.prototype.__proto__\<close>, step 2), so assigning a
  string to \<^verbatim>\<open>row['__proto__']\<close> creates no property.  Every other
  inherited property is a writable data property, which an assignment shadows by an
  own property.
\<close>

type_synonym row = "jsstring \<rightharpoonup> jsstring"

definition setProp :: "(jsstring \<rightharpoonup> 'v) \<Rightarrow> jsstring \<Rightarrow> 'v \<Rightarrow> (jsstring \<rightharpoonup> 'v)" where
  "setProp obj k v = (if k = ascii ''__proto__'' then obj else obj(k \<mapsto> v))"

text \<open>\<^verbatim>\<open>headers.forEach((header, index) => { row[header] = values[index]; })\<close>, run
  when both arrays have the same length.\<close>

fun assignAll :: "row \<Rightarrow> jsstring list \<Rightarrow> jsstring list \<Rightarrow> row" where
  "assignAll r (h # hs) (v # vs) = assignAll (setProp r h v) hs vs"
| "assignAll r _ _ = r"

definition buildRow :: "jsstring list \<Rightarrow> jsstring list \<Rightarrow> row" where
  "buildRow headers vals = assignAll Map.empty headers vals"

text \<open>\<^verbatim>\<open>line.split(',').map(v => v.trim().replace(/"/g, ''))\<close>, used for the header line
  and for every data line.\<close>

definition fields :: "jsstring \<Rightarrow> jsstring list" where
  "fields line = map (\<lambda>v. removeQuotes (trim v)) (split comma line)"

text \<open>The body of the \<^verbatim>\<open>for\<close> loop, over the lines after the header line.\<close>

fun collectRows :: "jsstring list \<Rightarrow> jsstring list \<Rightarrow> row list" where
  "collectRows headers [] = []"
| "collectRows headers (line # rest) =
     (let vals = fields line in
      if length vals = length headers then buildRow headers vals # collectRows headers rest
      else collectRows headers rest)"

text \<open>
  \<^verbatim>\<open>lines[headerLineIndex]\<close> is \<^verbatim>\<open>undefined\<close> when the text has too few lines, and
  \<^verbatim>\<open>undefined.split\<close> throws a TypeError (the promise is rejected).
\<close>

datatype error = TypeError

definition parseLines :: "nat \<Rightarrow> jsstring list \<Rightarrow> error + row list" where
  "parseLines headerLineIndex lines =
     (if headerLineIndex < length lines
      then Inr (collectRows (fields (lines ! headerLineIndex)) (drop (headerLineIndex + 1) lines))
      else Inl TypeError)"

definition headerLineIndex :: "jsstring \<Rightarrow> nat" where
  "headerLineIndex url = (if includesStr url (ascii ''summary.csv'') then 2 else 0)"

text \<open>The callback given the fetched text: \<^verbatim>\<open>text.trim().split('\n')\<close> and the loop.\<close>

definition fetchCsvData :: "jsstring \<Rightarrow> jsstring \<Rightarrow> error + row list" where
  "fetchCsvData url text = parseLines (headerLineIndex url) (split newline (trim text))"

section \<open>Count by category: the reducer of \<^verbatim>\<open>drawMapChart\<close>\<close>

text \<open>
  The accumulator is a fresh \<^verbatim>\<open>{}\<close> too.  Reading \<^verbatim>\<open>acc[country]\<close> finds an own
  property, or else a property inherited from \<^verbatim>\<open>Object.prototype\<close>, or else
  \<^verbatim>\<open>undefined\<close>.  The inherited properties of a browser's \<^verbatim>\<open>Object.prototype\<close> are
  the built-in functions below and the accessor \<^verbatim>\<open>__proto__\<close>, whose getter returns
  \<^verbatim>\<open>Object.prototype\<close> itself: all of them are objects, hence truthy, and adding \<open>1\<close>
  to an object concatenates its string conversion with \<^verbatim>\<open>"1"\<close>.
\<close>

definition objectPrototypeNames :: "jsstring list" where
  "objectPrototypeNames = map ascii [''constructor'', ''hasOwnProperty'', ''isPrototypeOf'',
     ''propertyIsEnumerable'', ''toLocaleString'', ''toString'', ''valueOf'',
     ''__defineGetter__'', ''__defineSetter__'', ''__lookupGetter__'', ''__lookupSetter__'',
     ''__proto__'']"

text \<open>
  The values the accumulator holds: a number, or the string made of the string conversion
  of \<^verbatim>\<open>Object.prototype[name]\<close> (a text the implementation chooses, such as
  \<^verbatim>\<open>function Object() { [native code] }\<close>) followed by \<open>k\<close> characters \<^verbatim>\<open>1\<close>.
  A count is a double; an array has fewer than \<open>2^32\<close> elements, so every count stays
  below \<open>2^53\<close> and is exact: it is a \<open>nat\<close> here.
\<close>

datatype jsvalue = Num nat | NativeText jsstring nat

text \<open>\<^verbatim>\<open>(acc[country] || 0) + 1\<close>.\<close>

definition plusOne :: "(jsstring \<rightharpoonup> jsvalue) \<Rightarrow> jsstring \<Rightarrow> jsvalue" where
  "plusOne acc country =
     (case acc country of
        Some (Num n) \<Rightarrow> Num (n + 1)
      | Some (NativeText f k) \<Rightarrow> NativeText f (k + 1)
      | None \<Rightarrow> if country \<in> set objectPrototypeNames then NativeText country 1 else Num 1)"

text \<open>The callback of \<^verbatim>\<open>data.reduce\<close>: \<^verbatim>\<open>row[key_country]\<close> is \<^verbatim>\<open>undefined\<close> when the row
  has no such property (the name is not one of \<^verbatim>\<open>Object.prototype\<close>), and
  \<^verbatim>\<open>if (country)\<close> is false for \<^verbatim>\<open>undefined\<close> and for the empty string.\<close>

definition countStep :: "(jsstring \<rightharpoonup> jsvalue) \<Rightarrow> row \<Rightarrow> (jsstring \<rightharpoonup> jsvalue)" where
  "countStep acc r =
     (case r key_country of
        None \<Rightarrow> acc
      | Some country \<Rightarrow>
          if country = [] then acc else setProp acc country (plusOne acc country))"

definition countryCounts :: "row list \<Rightarrow> (jsstring \<rightharpoonup> jsvalue)" where
  "countryCounts data = foldl countStep Map.empty data"

text \<open>The callback that builds \<^verbatim>\<open>mapData\<close> from one entry of \<^verbatim>\<open>countryCounts\<close>:
  first the choice of \<^verbatim>\<open>mapName\<close>, an \<^verbatim>\<open>if\<close> / \<^verbatim>\<open>else if\<close> chain.\<close>

definition mapName :: "jsstring \<Rightarrow> jsstring" where
  "mapName country =
     (if includesStr country zh_China then ascii ''China''
      else if includesStr country zh_USA then ascii ''United States''
      else if includesStr country zh_Japan then ascii ''Japan''
      else country)"

text \<open>The object \<^verbatim>\<open>{ name: mapName, value: count }\<close>, as the pair of its two fields.\<close>

definition mapEntry :: "jsstring \<times> jsvalue \<Rightarrow> jsstring \<times> jsvalue" where
  "mapEntry = (\<lambda>(country, count). (mapName country, count))"

section \<open>Numbers: \<^verbatim>\<open>parseFloat\<close>, \<^verbatim>\<open>*\<close> and \<^verbatim>\<open>toFixed\<close>\<close>

text \<open>
  A Number is an IEEE 754 binary64 value.  A finite one is given by the rational number
  it denotes; the two zeros are one value here, which no operation below tells apart
  (\<^verbatim>\<open>(-0).toFixed(2)\<close> is \<^verbatim>\<open>"0.00"\<close>).
\<close>

datatype jsnumber = NaN | PosInfinity | NegInfinity | Finite rat

text \<open>The number of binary digits of a positive integer.\<close>

function bitLength :: "int \<Rightarrow> int" where
  "bitLength n = (if n \<le> 0 then 0 else bitLength (n div 2) + 1)"
  by pat_completeness auto
termination
  by (relation "measure nat") auto

text \<open>\<open>\<lfloor>log\<^sub>2 a\<rfloor>\<close> for a positive rational \<open>a\<close>: one less than the number of binary
  digits of \<open>\<lfloor>a\<rfloor>\<close> from 1 on; below 1, the least \<open>k\<close> with \<open>2\<^sup>k \<ge> \<lceil>1 / a\<rceil>\<close>, negated.\<close>

definition floorLog2 :: "rat \<Rightarrow> int" where
  "floorLog2 a =
     (if 1 \<le> a then bitLength \<lfloor>a\<rfloor> - 1 else - bitLength (\<lceil>1 / a\<rceil> - 1))"

definition pow2 :: "int \<Rightarrow> rat" where
  "pow2 e = (if 0 \<le> e then 2 ^ nat e else 1 / 2 ^ nat (- e))"

definition pow10 :: "int \<Rightarrow> rat" where
  "pow10 e = (if 0 \<le> e then 10 ^ nat e else 1 / 10 ^ nat (- e))"

definition roundHalfEven :: "rat \<Rightarrow> int" where
  "roundHalfEven q =
     (let f = \<lfloor>q\<rfloor>; d = q - of_int f in
      if d < 1 / 2 then f else if 1 / 2 < d then f + 1 else if even f then f else f + 1)"

text \<open>
  The binary64 value nearest to a rational, ties to even: 53 significant bits, the
  exponent no less than \<open>-1022\<close> (below it the spacing stays \<open>2\<^sup>-\<^sup>1\<^sup>0\<^sup>7\<^sup>4\<close>), and infinity
  when the rounded magnitude reaches \<open>2\<^sup>1\<^sup>0\<^sup>2\<^sup>4\<close>.
\<close>

definition roundToDouble :: "rat \<Rightarrow> jsnumber" where
  "roundToDouble q =
     (if q = 0 then Finite 0
      else
        let a = \<bar>q\<bar>;
            e = max (floorLog2 a) (- 1022);
            ulp = pow2 (e - 52);
            r = of_int (roundHalfEven (a / ulp)) * ulp
        in if pow2 1024 \<le> r then (if q < 0 then NegInfinity else PosInfinity)
           else Finite (if q < 0 then - r else r))"

definition isDigit :: "jschar \<Rightarrow> bool" where
  "isDigit c \<longleftrightarrow> 0x30 \<le> c \<and> c \<le> 0x39"

definition digitsValue :: "jsstring \<Rightarrow> int" where
  "digitsValue ds = foldl (\<lambda>n c. 10 * n + (uint c - 48)) 0 ds"

text \<open>ExponentPart, optional: \<^verbatim>\<open>e\<close> or \<^verbatim>\<open>E\<close>, an optional sign and at least one digit;
  anything else is no exponent, and the literal ends before it.\<close>

definition exponentOf :: "jsstring \<Rightarrow> int" where
  "exponentOf s =
     (case s of
        [] \<Rightarrow> 0
      | c # t \<Rightarrow>
          if c = 0x65 \<or> c = 0x45 then
            (case t of
               [] \<Rightarrow> 0
             | d # u \<Rightarrow>
                 if d = 0x2B then
                   (if takeWhile isDigit u = [] then 0 else digitsValue (takeWhile isDigit u))
                 else if d = 0x2D then
                   (if takeWhile isDigit u = [] then 0 else - digitsValue (takeWhile isDigit u))
                 else
                   (if takeWhile isDigit t = [] then 0 else digitsValue (takeWhile isDigit t)))
          else 0)"

text \<open>
  The mathematical value of the longest prefix that is a StrUnsignedDecimalLiteral other
  than \<^verbatim>\<open>Infinity\<close>: digits, optionally a dot and digits, optionally an exponent; at
  least one digit before the exponent.  \<open>None\<close> when there is no such prefix.
\<close>

definition parseUnsigned :: "jsstring \<Rightarrow> rat option" where
  "parseUnsigned s =
     (let ip = takeWhile isDigit s;
          r1 = dropWhile isDigit s;
          dotted = (r1 \<noteq> [] \<and> hd r1 = 0x2E);
          fp = (if dotted then takeWhile isDigit (tl r1) else []);
          r2 = (if dotted then dropWhile isDigit (tl r1) else r1)
      in if ip = [] \<and> fp = [] then None
         else Some (of_int (digitsValue (ip @ fp)) * pow10 (exponentOf r2 - int (length fp))))"

text \<open>
  \<^verbatim>\<open>parseFloat(string)\<close>: leading white space is skipped, then the longest prefix that is
  a StrDecimalLiteral is read, and its value is rounded to a Number; \<^verbatim>\<open>NaN\<close> when no
  prefix is one.  (For a literal of more than 20 significant digits the standard lets an
  implementation round from 20 digits; the browsers round the exact value, as here.)
\<close>

definition parseFloat :: "jsstring \<Rightarrow> jsnumber" where
  "parseFloat inputString =
     (let s = trimStart inputString;
          neg = (s \<noteq> [] \<and> hd s = 0x2D);
          body = (if s \<noteq> [] \<and> (hd s = 0x2B \<or> hd s = 0x2D) then tl s else s)
      in if startsWith body (ascii ''Infinity'') then (if neg then NegInfinity else PosInfinity)
         else (case parseUnsigned body of
                 None \<Rightarrow> NaN
               | Some mv \<Rightarrow> roundToDouble (if neg then - mv else mv)))"

text \<open>\<^verbatim>\<open>parseFloat(row[key])\<close>: an absent property is \<^verbatim>\<open>undefined\<close>, which is converted to
  the string \<^verbatim>\<open>"undefined"\<close> first.\<close>

definition parseFloatCell :: "jsstring option \<Rightarrow> jsnumber" where
  "parseFloatCell cell =
     (case cell of None \<Rightarrow> parseFloat (ascii ''undefined'') | Some s \<Rightarrow> parseFloat s)"

text \<open>\<^verbatim>\<open>x * 100\<close>: the exact product, rounded.\<close>

definition times100 :: "jsnumber \<Rightarrow> jsnumber" where
  "times100 x =
     (case x of
        NaN \<Rightarrow> NaN
      | PosInfinity \<Rightarrow> PosInfinity
      | NegInfinity \<Rightarrow> NegInfinity
      | Finite q \<Rightarrow> roundToDouble (q * 100))"

text \<open>The decimal digits of a natural number, given as an \<open>int\<close>.\<close>

function digitsOf :: "int \<Rightarrow> jsstring" where
  "digitsOf n = (if n < 10 then [of_int (48 + n)] else digitsOf (n div 10) @ [of_int (48 + n mod 10)])"
  by pat_completeness auto
termination
  by (relation "measure nat") auto

text \<open>
  \<^verbatim>\<open>x.toFixed(2)\<close>, by the steps of the standard with \<open>f = 2\<close> (no RangeError for this
  \<open>f\<close>).  From \<open>10\<^sup>2\<^sup>1\<close> on the result is the general Number-to-String conversion of the
  magnitude, in exponent notation; that conversion is the parameter \<open>numberToString\<close>.
  Below, \<open>n\<close> is the integer nearest to \<open>100 x\<close>, the larger one of two.
\<close>

definition toFixed2 :: "(rat \<Rightarrow> jsstring) \<Rightarrow> jsnumber \<Rightarrow> jsstring" where
  "toFixed2 numberToString x =
     (case x of
        NaN \<Rightarrow> ascii ''NaN''
      | PosInfinity \<Rightarrow> ascii ''Infinity''
      | NegInfinity \<Rightarrow> ascii ''-Infinity''
      | Finite q \<Rightarrow>
          let s = (if q < 0 then ascii ''-'' else []);
              a = \<bar>q\<bar>
          in if 10 ^ 21 \<le> a then s @ numberToString a
             else
               let n = \<lfloor>a * 100 + 1 / 2\<rfloor>;
                   m = digitsOf n;
                   m' = (if length m \<le> 2 then replicate (3 - length m) 0x30 @ m else m);
                   k = length m'
               in s @ take (k - 2) m' @ ascii ''.'' @ drop (k - 2) m')"

section \<open>Label and value extraction: \<^verbatim>\<open>drawBarChart\<close>\<close>

text \<open>\<^verbatim>\<open>data.map(row => row[key_industry])\<close>; an absent property is
  \<^verbatim>\<open>undefined\<close>, here \<open>None\<close>.\<close>

definition industries :: "row list \<Rightarrow> jsstring option list" where
  "industries data = map (\<lambda>r. r key_industry) data"

text \<open>\<^verbatim>\<open>data.map(row => (parseFloat(row[key_rate]) * 100).toFixed(2))\<close>.\<close>

definition percentText :: "(rat \<Rightarrow> jsstring) \<Rightarrow> jsstring option \<Rightarrow> jsstring" where
  "percentText numberToString cell = toFixed2 numberToString (times100 (parseFloatCell cell))"

definition avgProfitRates :: "(rat \<Rightarrow> jsstring) \<Rightarrow> row list \<Rightarrow> jsstring list" where
  "avgProfitRates numberToString data = map (\<lambda>r. percentText numberToString (r key_rate)) data"

section \<open>Notions used in the statements\<close>

text \<open>The number of rows whose country column holds the value \<open>c\<close>.\<close>

definition carrying :: "row list \<Rightarrow> jsstring \<Rightarrow> nat" where
  "carrying data c = length (filter (\<lambda>r. r key_country = Some c) data)"

text \<open>What one row that carries \<open>c\<close> does to the entry of \<open>c\<close> in the accumulator.\<close>

definition bump :: "jsstring \<Rightarrow> jsvalue option \<Rightarrow> jsvalue option" where
  "bump c v =
     (if c = [] \<or> c = ascii ''__proto__'' then v
      else Some (case v of
                   Some (Num n) \<Rightarrow> Num (n + 1)
                 | Some (NativeText f k) \<Rightarrow> NativeText f (k + 1)
                 | None \<Rightarrow> if c \<in> set objectPrototypeNames then NativeText c 1 else Num 1))"

text \<open>
  The field rule in the words of the specification, to compare with \<^const>\<open>fields\<close>: a
  field is trimmed and loses its surrounding quote characters, the first and the last
  code unit when both are double quotes.
\<close>

definition stripSurroundingQuotes :: "jsstring \<Rightarrow> jsstring" where
  "stripSurroundingQuotes s =
     (if 2 \<le> length s \<and> hd s = dquote \<and> last s = dquote then butlast (tl s) else s)"

definition specFields :: "jsstring \<Rightarrow> jsstring list" where
  "specFields line = map (\<lambda>v. stripSurroundingQuotes (trim v)) (split comma line)"








section \<open>Facts about the string operations\<close>

lemma split_not_Nil: "split sep s \<noteq> []"
  by (induction s) (auto split: list.splits)

lemma trim_append_left: "\<forall>c \<in> set ws. isTrimChar c \<Longrightarrow> trim (ws @ s) = trim s"
  by (simp add: trim_def dropWhile_append)

lemma dropWhile_rev_append_right:
  "\<forall>c \<in> set ws. P c \<Longrightarrow> dropWhile P (rev (s @ ws)) = dropWhile P (rev s)"
  by (simp add: dropWhile_append)

lemma trim_append_right:
  assumes "\<forall>c \<in> set ws. isTrimChar c"
  shows "trim (s @ ws) = trim s"
proof (cases "\<forall>c \<in> set s. isTrimChar c")
  case True
  with assms have "dropWhile isTrimChar (s @ ws) = []" "dropWhile isTrimChar s = []"
    by auto
  then show ?thesis unfolding trim_def by (simp only:)
next
  case False
  then have "dropWhile isTrimChar (s @ ws) = dropWhile isTrimChar s @ ws"
    by (auto simp: dropWhile_append)
  with assms show ?thesis
    unfolding trim_def by (simp add: dropWhile_append)
qed

text \<open>The pieces of a split hold no separator, and joined by the separator they give the
  string back.\<close>

lemma split_pieces: "p \<in> set (split sep s) \<Longrightarrow> sep \<notin> set p"
proof (induction s arbitrary: p)
  case Nil
  then show ?case by simp
next
  case (Cons c cs)
  then show ?case
    using split_not_Nil [of sep cs]
    by (cases "split sep cs") (auto split: if_splits)
qed

lemma split_concat: "concat (map (\<lambda>p. sep # p) (split sep s)) = sep # s"
proof (induction s)
  case Nil
  then show ?case by simp
next
  case (Cons c cs)
  then show ?case
    using split_not_Nil [of sep cs]
    by (cases "split sep cs") auto
qed

text \<open>A trimmed string is the string without a run of white space at each end, and it
  neither starts nor ends with white space.\<close>

lemma rev_takeWhile_split:
  "xs = rev (dropWhile P (rev xs)) @ rev (takeWhile P (rev xs))"
proof -
  have "rev (rev xs) = rev (takeWhile P (rev xs) @ dropWhile P (rev xs))"
    by (simp only: takeWhile_dropWhile_id)
  then show ?thesis by (simp only: rev_rev_ident rev_append)
qed

lemma trim_decompose:
  "\<exists>pre post. s = pre @ trim s @ post \<and> list_all isTrimChar pre \<and> list_all isTrimChar post"
proof -
  let ?pre = "takeWhile isTrimChar s"
  let ?mid = "dropWhile isTrimChar s"
  let ?post = "rev (takeWhile isTrimChar (rev ?mid))"
  have "?mid = trim s @ ?post"
    unfolding trim_def by (rule rev_takeWhile_split)
  then have "s = ?pre @ trim s @ ?post"
    by (metis takeWhile_dropWhile_id)
  moreover have "list_all isTrimChar ?pre"
    by (auto simp: list_all_iff dest: set_takeWhileD)
  moreover have "list_all isTrimChar ?post"
    by (auto simp: list_all_iff dest: set_takeWhileD)
  ultimately show ?thesis by blast
qed

lemma trim_ends:
  assumes "trim s \<noteq> []"
  shows "\<not> isTrimChar (hd (trim s)) \<and> \<not> isTrimChar (last (trim s))"
proof -
  let ?mid = "dropWhile isTrimChar s"
  let ?r = "dropWhile isTrimChar (rev ?mid)"
  have t: "trim s = rev ?r" by (simp add: trim_def)
  with assms have r: "?r \<noteq> []" by simp
  then have "\<not> isTrimChar (hd ?r)" by (rule hd_dropWhile)
  with r t have l: "\<not> isTrimChar (last (trim s))"
    by (simp add: last_rev)
  have mid: "?mid \<noteq> []"
  proof
    assume "?mid = []"
    then have "?r = []" by (simp only: rev.simps dropWhile.simps)
    with r show False by contradiction
  qed
  then have h: "\<not> isTrimChar (hd ?mid)" by (rule hd_dropWhile)
  have "rev ?mid = takeWhile isTrimChar (rev ?mid) @ ?r" by simp
  then have "last (rev ?mid) = last (takeWhile isTrimChar (rev ?mid) @ ?r)" by simp
  also have "\<dots> = last ?r" using r by (rule last_appendR)
  finally have "last ?r = hd ?mid" using mid by (simp add: last_rev)
  with r t have "hd (trim s) = hd ?mid" by (simp add: hd_rev)
  with h l show ?thesis by simp
qed

lemma startsWith_iff: "startsWith s p \<longleftrightarrow> (\<exists>q. s = p @ q)"
  by (induction s p rule: startsWith.induct) auto

lemma includesStr_iff: "includesStr s sub \<longleftrightarrow> (\<exists>p q. s = p @ sub @ q)"
proof (induction s)
  case Nil
  then show ?case by simp
next
  case (Cons c cs)
  show ?case
  proof
    assume "includesStr (c # cs) sub"
    then consider "startsWith (c # cs) sub" | "includesStr cs sub" by auto
    then show "\<exists>p q. c # cs = p @ sub @ q"
    proof cases
      case 1
      then obtain q where "c # cs = sub @ q" by (auto simp: startsWith_iff)
      then have "c # cs = [] @ sub @ q" by simp
      then show ?thesis by blast
    next
      case 2
      then obtain p q where "cs = p @ sub @ q" using Cons.IH by blast
      then have "c # cs = (c # p) @ sub @ q" by simp
      then show ?thesis by blast
    qed
  next
    assume "\<exists>p q. c # cs = p @ sub @ q"
    then obtain p q where pq: "c # cs = p @ sub @ q" by blast
    show "includesStr (c # cs) sub"
    proof (cases p)
      case Nil
      with pq have "startsWith (c # cs) sub" by (auto simp: startsWith_iff)
      then show ?thesis by simp
    next
      case (Cons a p')
      with pq have "cs = p' @ sub @ q" by simp
      then have "includesStr cs sub" using Cons.IH by blast
      then show ?thesis by simp
    qed
  qed
qed

declare bitLength.simps [simp del]
declare digitsOf.simps [simp del]

lemmas str_defs = ascii_def newline_def comma_def dquote_def

lemma collectRows_append:
  "collectRows hs (xs @ ys) = collectRows hs xs @ collectRows hs ys"
  by (induction xs) (simp_all add: Let_def)

section \<open>The parser and the lines of the text\<close>

text \<open>
  Claim C10.  The text is trimmed as a whole before it is split into lines: white space
  and line terminators around the text (blank leading lines, a final newline) change
  nothing, the header index counts the lines of the trimmed text, and a text that ends
  in a newline gives the same Rows as the text without it.
\<close>

theorem fetchCsvData_trims_text:
  assumes "\<forall>c \<in> set pre. isTrimChar c" and "\<forall>c \<in> set post. isTrimChar c"
  shows "fetchCsvData url (pre @ text @ post) = fetchCsvData url text
       \<and> fetchCsvData url text = parseLines (headerLineIndex url) (split newline (trim text))
       \<and> fetchCsvData url (text @ [newline]) = fetchCsvData url text"
proof -
  have "trim (pre @ text @ post) = trim text"
    using assms trim_append_right [of post "pre @ text"] trim_append_left [of pre "text"]
    by simp
  moreover have "trim (text @ [newline]) = trim text"
    by (rule trim_append_right) (simp add: isTrimChar_def newline_def)
  ultimately show ?thesis
    by (simp add: fetchCsvData_def)
qed

theorem fetchCsvData_trims_text_witness:
  "list_all isTrimChar [newline, 0x20] \<and> list_all isTrimChar [0x0D, newline]
   \<and> fetchCsvData (ascii ''data/world_500.csv'')
        ([newline, 0x20] @ (ascii ''a,b'' @ [newline] @ ascii ''1,2'') @ [0x0D, newline])
      = Inr [[ascii ''a'' \<mapsto> ascii ''1'', ascii ''b'' \<mapsto> ascii ''2'']]"
  using fetchCsvData_trims_text [of "[newline, 0x20]" "[0x0D, newline]" "ascii ''data/world_500.csv''"
      "ascii ''a,b'' @ [newline] @ ascii ''1,2''"]
  by (simp add: fetchCsvData_def parseLines_def headerLineIndex_def fields_def buildRow_def
      setProp_def removeQuotes_def trim_def isTrimChar_def str_defs)

text \<open>
  Claim C3.  For a URL that contains \<^verbatim>\<open>summary.csv\<close> the header offset is 2: the first
  two lines of the (trimmed) text are neither header nor data, whatever they hold; the
  header is the line of index 2 and the Rows are built from the lines of index 3 and
  above only.
\<close>

theorem summary_skips_two_lines:
  assumes "includesStr url (ascii ''summary.csv'')"
      and "split newline (trim text) = l0 # l1 # hdr # rest"
  shows "fetchCsvData url text = Inr (collectRows (fields hdr) rest)"
  using assms by (simp add: fetchCsvData_def parseLines_def headerLineIndex_def)

theorem summary_skips_two_lines_witness:
  "includesStr (ascii ''data/summary.csv'') (ascii ''summary.csv'')
   \<and> split newline (trim (ascii ''t,u,v'' @ [newline] @ ascii ''x,y'' @ [newline] @ ascii ''a,b''
         @ [newline] @ ascii ''1,2''))
     = ascii ''t,u,v'' # ascii ''x,y'' # ascii ''a,b'' # [ascii ''1,2'']
   \<and> fetchCsvData (ascii ''data/summary.csv'')
        (ascii ''t,u,v'' @ [newline] @ ascii ''x,y'' @ [newline] @ ascii ''a,b'' @ [newline] @ ascii ''1,2'')
      = Inr [[ascii ''a'' \<mapsto> ascii ''1'', ascii ''b'' \<mapsto> ascii ''2'']]"
  using summary_skips_two_lines [of "ascii ''data/summary.csv''"
      "ascii ''t,u,v'' @ [newline] @ ascii ''x,y'' @ [newline] @ ascii ''a,b'' @ [newline] @ ascii ''1,2''"
      "ascii ''t,u,v''" "ascii ''x,y''" "ascii ''a,b''" "[ascii ''1,2'']"]
  by (simp add: fields_def buildRow_def
      setProp_def removeQuotes_def trim_def isTrimChar_def str_defs)

text \<open>
  Claim C2.  A data line (a line after the header line) whose number of comma-separated
  fields differs from the header's gives no Row and no error: the parser returns Rows,
  and they are the Rows built from the other lines alone, the same as for the lines
  without that line and as for any text that has these lines.
\<close>

theorem malformed_line_dropped:
  assumes "split newline (trim text) = pre @ bad # post"
      and "headerLineIndex url < length pre"
      and "length (split comma bad) \<noteq> length (split comma (pre ! headerLineIndex url))"
  shows "fetchCsvData url text = parseLines (headerLineIndex url) (pre @ post)
       \<and> fetchCsvData url text
           = Inr (collectRows (fields (pre ! headerLineIndex url))
                    (drop (headerLineIndex url + 1) pre @ post))
       \<and> (\<forall>text'. split newline (trim text') = pre @ post \<longrightarrow>
             fetchCsvData url text = fetchCsvData url text')"
proof -
  let ?i = "headerLineIndex url"
  let ?hs = "fields (pre ! ?i)"
  have bad: "length (fields bad) \<noteq> length ?hs"
    using assms(3) by (simp add: fields_def)
  have "collectRows ?hs (drop (?i + 1) (pre @ bad # post))
      = collectRows ?hs (drop (?i + 1) pre) @ collectRows ?hs (bad # post)"
    using assms(2) by (simp add: collectRows_append)
  also have "\<dots> = collectRows ?hs (drop (?i + 1) pre @ post)"
    using bad by (simp add: collectRows_append)
  finally have rows: "fetchCsvData url text = Inr (collectRows ?hs (drop (?i + 1) pre @ post))"
    using assms(1,2) by (simp add: fetchCsvData_def parseLines_def nth_append)
  moreover have without: "parseLines ?i (pre @ post) = Inr (collectRows ?hs (drop (?i + 1) pre @ post))"
    using assms(2) by (simp add: parseLines_def nth_append)
  ultimately show ?thesis
    by (simp add: fetchCsvData_def)
qed

theorem malformed_line_dropped_witness:
  "split newline (trim (ascii ''a,b'' @ [0x0D, newline] @ ascii ''1,2'' @ [0x0D, newline]
       @ ascii ''1,2,3'' @ [0x0D, newline]))
     = [ascii ''a,b'' @ [0x0D], ascii ''1,2'' @ [0x0D]] @ ascii ''1,2,3'' # []
   \<and> headerLineIndex (ascii ''data/world_500.csv'') < length [ascii ''a,b'' @ [0x0D], ascii ''1,2'' @ [0x0D]]
   \<and> length (split comma (ascii ''1,2,3''))
       \<noteq> length (split comma ([ascii ''a,b'' @ [0x0D], ascii ''1,2'' @ [0x0D]]
                                  ! headerLineIndex (ascii ''data/world_500.csv'')))
   \<and> fetchCsvData (ascii ''data/world_500.csv'')
        (ascii ''a,b'' @ [0x0D, newline] @ ascii ''1,2'' @ [0x0D, newline] @ ascii ''1,2,3'' @ [0x0D, newline])
      = Inr [[ascii ''a'' \<mapsto> ascii ''1'', ascii ''b'' \<mapsto> ascii ''2'']]"
proof -
  let ?text = "ascii ''a,b'' @ [0x0D, newline] @ ascii ''1,2'' @ [0x0D, newline] @ ascii ''1,2,3'' @ [0x0D, newline]"
  let ?pre = "[ascii ''a,b'' @ [0x0D], ascii ''1,2'' @ [0x0D]]"
  have l: "split newline (trim ?text) = ?pre @ ascii ''1,2,3'' # []"
    by (simp add: trim_def isTrimChar_def str_defs)
  have h: "headerLineIndex (ascii ''data/world_500.csv'') < length ?pre"
    by (simp add: headerLineIndex_def str_defs)
  have n: "length (split comma (ascii ''1,2,3''))
       \<noteq> length (split comma (?pre ! headerLineIndex (ascii ''data/world_500.csv'')))"
    by (simp add: headerLineIndex_def str_defs)
  from malformed_line_dropped [OF l h n]
  have "fetchCsvData (ascii ''data/world_500.csv'') ?text
      = Inr (collectRows (fields (?pre ! headerLineIndex (ascii ''data/world_500.csv'')))
               (drop (headerLineIndex (ascii ''data/world_500.csv'') + 1) ?pre @ []))"
    by blast
  also have "\<dots> = Inr [[ascii ''a'' \<mapsto> ascii ''1'', ascii ''b'' \<mapsto> ascii ''2'']]"
    by (simp add: headerLineIndex_def fields_def buildRow_def setProp_def removeQuotes_def
        trim_def isTrimChar_def str_defs)
  finally show ?thesis using l h n by (intro conjI)
qed

text \<open>
  Claim C9.  The claim as stated fails: the parser removes every double quote of a
  trimmed field, not only a surrounding pair, so the quoted field \<^verbatim>\<open>"a"b"\<close> gives
  \<^verbatim>\<open>ab\<close> where stripping the surrounding quotes gives \<^verbatim>\<open>a"b\<close>.
\<close>

theorem surrounding_quotes_counterexample:
  "fetchCsvData (ascii ''data/world_500.csv'')
      (ascii ''h'' @ [newline] @ [dquote] @ ascii ''a'' @ [dquote] @ ascii ''b'' @ [dquote])
     = Inr [[ascii ''h'' \<mapsto> ascii ''ab'']]
   \<and> fields ([dquote] @ ascii ''a'' @ [dquote] @ ascii ''b'' @ [dquote]) = [ascii ''ab'']
   \<and> specFields ([dquote] @ ascii ''a'' @ [dquote] @ ascii ''b'' @ [dquote])
       = [ascii ''a'' @ [dquote] @ ascii ''b'']
   \<and> fields ([dquote] @ ascii ''a'' @ [dquote] @ ascii ''b'' @ [dquote])
       \<noteq> specFields ([dquote] @ ascii ''a'' @ [dquote] @ ascii ''b'' @ [dquote])"
  by (simp add: fetchCsvData_def parseLines_def headerLineIndex_def buildRow_def setProp_def
      fields_def specFields_def stripSurroundingQuotes_def removeQuotes_def trim_def
      isTrimChar_def str_defs)

text \<open>Rows and their keys: what \<^const>\<open>buildRow\<close> and \<^const>\<open>collectRows\<close> produce.\<close>

lemma assignAll_dom:
  "length hs = length vs \<Longrightarrow> dom (assignAll r hs vs) = dom r \<union> (set hs - {ascii ''__proto__''})"
  by (induction r hs vs rule: assignAll.induct) (auto simp: setProp_def)

lemma buildRow_dom:
  "length hs = length vs \<Longrightarrow> dom (buildRow hs vs) = set hs - {ascii ''__proto__''}"
  by (simp add: buildRow_def assignAll_dom)

lemma assignAll_Some:
  "assignAll r hs vs k = Some v \<Longrightarrow>
     r k = Some v \<or> (\<exists>i. i < length hs \<and> i < length vs \<and> hs ! i = k \<and> vs ! i = v)"
proof (induction r hs vs rule: assignAll.induct)
  case (1 r h hs v' vs)
  from "1.IH" [OF "1.prems" [simplified]]
  consider "setProp r h v' k = Some v"
    | i where "i < length hs" "i < length vs" "hs ! i = k" "vs ! i = v"
    by blast
  then show ?case
  proof cases
    case 1
    then have "r k = Some v \<or> (h = k \<and> v' = v)"
      by (auto simp: setProp_def split: if_splits)
    then show ?thesis by fastforce
  next
    case 2
    then have "Suc i < length (h # hs) \<and> Suc i < length (v' # vs) \<and> (h # hs) ! Suc i = k
        \<and> (v' # vs) ! Suc i = v"
      by simp
    then show ?thesis by blast
  qed
qed simp_all

lemma buildRow_Some:
  "buildRow hs vs k = Some v \<Longrightarrow> \<exists>i. i < length hs \<and> i < length vs \<and> hs ! i = k \<and> vs ! i = v"
  using assignAll_Some [of Map.empty hs vs k v] by (simp add: buildRow_def)

lemma collectRows_mem:
  "r \<in> set (collectRows hs ls) \<Longrightarrow>
     \<exists>l \<in> set ls. length (fields l) = length hs \<and> r = buildRow hs (fields l)"
  by (induction ls) (auto simp: Let_def split: if_splits)

lemma collectRows_consistent:
  "\<forall>l \<in> set ls. length (split comma l) = length hs \<Longrightarrow>
     collectRows hs ls = map (\<lambda>l. buildRow hs (fields l)) ls"
  by (induction ls) (simp_all add: Let_def fields_def)

lemma removeQuotes_no_quote: "dquote \<notin> set (removeQuotes s)"
  by (simp add: removeQuotes_def)

lemma removeQuotes_quoted:
  "dquote \<notin> set content \<Longrightarrow> removeQuotes (dquote # content @ [dquote]) = content"
  by (induction content) (auto simp: removeQuotes_def)

lemma removeQuotes_plain: "dquote \<notin> set s \<Longrightarrow> removeQuotes s = s"
  by (induction s) (auto simp: removeQuotes_def)

text \<open>
  Claim C9, amended.  Every key and every cell value of every returned Row is a
  comma-separated piece of the header line, respectively of a data line, at the same
  position, trimmed and then with every double quote removed; no field holds a double
  quote.
\<close>

theorem parsed_fields_trimmed_unquoted:
  assumes "fetchCsvData url text = Inr rows" and "r \<in> set rows" and "r k = Some v"
  shows "\<exists>hline dline i.
           hline = split newline (trim text) ! headerLineIndex url
         \<and> dline \<in> set (drop (headerLineIndex url + 1) (split newline (trim text)))
         \<and> i < length (split comma hline) \<and> i < length (split comma dline)
         \<and> k = removeQuotes (trim (split comma hline ! i))
         \<and> v = removeQuotes (trim (split comma dline ! i))
         \<and> dquote \<notin> set k \<and> dquote \<notin> set v"
proof -
  let ?lines = "split newline (trim text)"
  let ?i = "headerLineIndex url"
  let ?hs = "fields (?lines ! ?i)"
  from assms(1) have rows: "rows = collectRows ?hs (drop (?i + 1) ?lines)"
    by (auto simp: fetchCsvData_def parseLines_def split: if_splits)
  with assms(2) obtain dline where dline: "dline \<in> set (drop (?i + 1) ?lines)"
    and r: "r = buildRow ?hs (fields dline)"
    using collectRows_mem by blast
  from assms(3) r obtain i where i: "i < length ?hs" "i < length (fields dline)"
    and kv: "?hs ! i = k" "fields dline ! i = v"
    using buildRow_Some by blast
  from i have i': "i < length (split comma (?lines ! ?i))" "i < length (split comma dline)"
    by (simp_all add: fields_def)
  with kv have "k = removeQuotes (trim (split comma (?lines ! ?i) ! i))"
    "v = removeQuotes (trim (split comma dline ! i))"
    by (simp_all add: fields_def)
  with dline i' show ?thesis
    using removeQuotes_no_quote by blast
qed

theorem parsed_fields_trimmed_unquoted_witness:
  "fetchCsvData (ascii ''data/world_500.csv'')
      (ascii ''h'' @ [newline, 0x20, dquote] @ ascii ''a'' @ [dquote] @ ascii ''b'' @ [dquote])
     = Inr [[ascii ''h'' \<mapsto> ascii ''ab'']]
   \<and> [ascii ''h'' \<mapsto> ascii ''ab''] \<in> set [[ascii ''h'' \<mapsto> ascii ''ab'']]
   \<and> [ascii ''h'' \<mapsto> ascii ''ab''] (ascii ''h'') = Some (ascii ''ab'')
   \<and> (\<exists>hline dline i.
           hline = split newline (trim (ascii ''h'' @ [newline, 0x20, dquote] @ ascii ''a'' @ [dquote] @ ascii ''b'' @ [dquote]))
                     ! headerLineIndex (ascii ''data/world_500.csv'')
         \<and> dline \<in> set (drop (headerLineIndex (ascii ''data/world_500.csv'') + 1)
               (split newline (trim (ascii ''h'' @ [newline, 0x20, dquote] @ ascii ''a'' @ [dquote] @ ascii ''b'' @ [dquote]))))
         \<and> i < length (split comma hline) \<and> i < length (split comma dline)
         \<and> ascii ''h'' = removeQuotes (trim (split comma hline ! i))
         \<and> ascii ''ab'' = removeQuotes (trim (split comma dline ! i))
         \<and> dquote \<notin> set (ascii ''h'') \<and> dquote \<notin> set (ascii ''ab''))"
proof -
  have p: "fetchCsvData (ascii ''data/world_500.csv'')
      (ascii ''h'' @ [newline, 0x20, dquote] @ ascii ''a'' @ [dquote] @ ascii ''b'' @ [dquote])
     = Inr [[ascii ''h'' \<mapsto> ascii ''ab'']]"
    by (simp add: fetchCsvData_def parseLines_def headerLineIndex_def fields_def buildRow_def
        setProp_def removeQuotes_def trim_def isTrimChar_def str_defs)
  have m: "[ascii ''h'' \<mapsto> ascii ''ab''] \<in> set [[ascii ''h'' \<mapsto> ascii ''ab'']]"
    by simp
  have l: "[ascii ''h'' \<mapsto> ascii ''ab''] (ascii ''h'') = Some (ascii ''ab'')"
    by simp
  from p m l parsed_fields_trimmed_unquoted [OF p m l] show ?thesis
    by (intro conjI)
qed

text \<open>
  Claim C1.  The header name \<^verbatim>\<open>__proto__\<close> is declared on the header line and is not a
  key of the returned Row: the assignment \<^verbatim>\<open>row['__proto__'] = '1'\<close> goes to the
  inherited setter and is lost.
\<close>

theorem proto_header_not_a_key:
  "fetchCsvData (ascii ''data/world_500.csv'') (ascii ''__proto__,x'' @ [newline] @ ascii ''1,2'')
     = Inr [[ascii ''x'' \<mapsto> ascii ''2'']]
   \<and> fields (ascii ''__proto__,x'') = [ascii ''__proto__'', ascii ''x'']
   \<and> ascii ''__proto__'' \<notin> dom [ascii ''x'' \<mapsto> ascii ''2'']"
  by (simp add: fetchCsvData_def parseLines_def headerLineIndex_def fields_def buildRow_def
      setProp_def removeQuotes_def trim_def isTrimChar_def str_defs)

text \<open>
  For every other header name the claim holds: when every data line has the header's
  number of comma-separated fields, the parser returns one Row per data line, in the
  order of the lines, and the keys of each Row are the header names (apart from
  \<^verbatim>\<open>__proto__\<close>).
\<close>

lemma consistent_text_rows:
  assumes "split newline (trim text) = lines"
      and "headerLineIndex url < length lines"
      and "\<forall>l \<in> set (drop (headerLineIndex url + 1) lines).
             length (split comma l) = length (split comma (lines ! headerLineIndex url))"
  shows "\<exists>rows. fetchCsvData url text = Inr rows
           \<and> length rows = length lines - (headerLineIndex url + 1)
           \<and> (\<forall>j < length rows.
                 rows ! j = buildRow (fields (lines ! headerLineIndex url))
                                     (fields (lines ! (headerLineIndex url + 1 + j)))
               \<and> dom (rows ! j) = set (fields (lines ! headerLineIndex url)) - {ascii ''__proto__''})"
proof -
  let ?i = "headerLineIndex url"
  let ?hs = "fields (lines ! ?i)"
  let ?ls = "drop (?i + 1) lines"
  have c: "\<forall>l \<in> set ?ls. length (split comma l) = length ?hs"
    using assms(3) by (simp add: fields_def)
  have rows: "fetchCsvData url text = Inr (map (\<lambda>l. buildRow ?hs (fields l)) ?ls)"
    using assms(1,2) collectRows_consistent [OF c]
    by (simp add: fetchCsvData_def parseLines_def)
  have "dom (buildRow ?hs (fields (?ls ! j))) = set ?hs - {ascii ''__proto__''}"
    if "j < length ?ls" for j
  proof -
    from that have "?ls ! j \<in> set ?ls" by (rule nth_mem)
    with c have "length ?hs = length (fields (?ls ! j))" by (simp add: fields_def)
    then show ?thesis by (rule buildRow_dom)
  qed
  with rows show ?thesis
    by (simp add: add.commute)
qed

section \<open>Count by category\<close>

lemma countStep_at:
  "countStep acc r c = (if r key_country = Some c then bump c (acc c) else acc c)"
  by (auto simp: countStep_def bump_def setProp_def plusOne_def split: option.splits)

lemma foldl_countStep_at:
  "foldl countStep acc data c = (bump c ^^ carrying data c) (acc c)"
proof (induction data arbitrary: acc)
  case Nil
  then show ?case by (simp add: carrying_def)
next
  case (Cons r data)
  have "foldl countStep acc (r # data) c = (bump c ^^ carrying data c) (countStep acc r c)"
    using Cons.IH [of "countStep acc r"] by simp
  also have "\<dots> = (bump c ^^ carrying (r # data) c) (acc c)"
    by (simp only: countStep_at [of acc r c]) (simp add: carrying_def funpow_swap1)
  finally show ?case .
qed

lemma bump_simps:
  "bump c None =
     (if c = [] \<or> c = ascii ''__proto__'' then None
      else if c \<in> set objectPrototypeNames then Some (NativeText c 1) else Some (Num 1))"
  "bump c (Some (Num n)) =
     (if c = [] \<or> c = ascii ''__proto__'' then Some (Num n) else Some (Num (n + 1)))"
  "bump c (Some (NativeText f j)) =
     (if c = [] \<or> c = ascii ''__proto__'' then Some (NativeText f j)
      else Some (NativeText f (j + 1)))"
  by (simp_all add: bump_def)

lemma bump_funpow_None:
  "(bump c ^^ k) None =
     (if c = [] \<or> c = ascii ''__proto__'' \<or> k = 0 then None
      else if c \<in> set objectPrototypeNames then Some (NativeText c k)
      else Some (Num k))"
  by (induction k) (simp_all add: bump_simps)

lemma countryCounts_at:
  "countryCounts data c =
     (if c = [] \<or> c = ascii ''__proto__'' \<or> carrying data c = 0 then None
      else if c \<in> set objectPrototypeNames then Some (NativeText c (carrying data c))
      else Some (Num (carrying data c)))"
  by (simp add: countryCounts_def foldl_countStep_at bump_funpow_None)

lemma carrying_mset: "mset data' = mset data \<Longrightarrow> carrying data' c = carrying data c"
  unfolding carrying_def
  by (metis mset_filter size_mset)

text \<open>
  Claim C4.  The counts of a row sequence and of any permutation of it are the same
  mapping.
\<close>

theorem countryCounts_permutation:
  assumes "mset data' = mset data"
  shows "countryCounts data' = countryCounts data"
proof
  fix c
  show "countryCounts data' c = countryCounts data c"
    by (simp add: countryCounts_at carrying_mset [OF assms])
qed

theorem countryCounts_permutation_witness:
  "mset [[key_country \<mapsto> zh_USA], [key_country \<mapsto> zh_China], [ascii ''x'' \<mapsto> ascii ''y''], [key_country \<mapsto> zh_China]]
   = mset [[key_country \<mapsto> zh_China], [key_country \<mapsto> zh_China], [key_country \<mapsto> zh_USA], [ascii ''x'' \<mapsto> ascii ''y'']]
   \<and> countryCounts [[key_country \<mapsto> zh_USA], [key_country \<mapsto> zh_China], [ascii ''x'' \<mapsto> ascii ''y''], [key_country \<mapsto> zh_China]]
   = countryCounts [[key_country \<mapsto> zh_China], [key_country \<mapsto> zh_China], [key_country \<mapsto> zh_USA], [ascii ''x'' \<mapsto> ascii ''y'']]"
proof -
  have m: "mset [[key_country \<mapsto> zh_USA], [key_country \<mapsto> zh_China], [ascii ''x'' \<mapsto> ascii ''y''], [key_country \<mapsto> zh_China]]
   = mset [[key_country \<mapsto> zh_China], [key_country \<mapsto> zh_China], [key_country \<mapsto> zh_USA], [ascii ''x'' \<mapsto> ascii ''y'']]"
    by simp
  from m countryCounts_permutation [OF m] show ?thesis by (rule conjI)
qed

text \<open>The example of the specification: two rows of one country and one of another.\<close>

lemma countryCounts_example:
  "countryCounts [[key_country \<mapsto> zh_China], [key_country \<mapsto> zh_China], [key_country \<mapsto> zh_USA]]
     = [zh_China \<mapsto> Num 2, zh_USA \<mapsto> Num 1]"
  by (simp add: countryCounts_def countStep_def setProp_def plusOne_def objectPrototypeNames_def
      zh_China_def zh_USA_def ascii_def numeral_2_eq_2 [symmetric])

text \<open>
  Claim C5.  A country value that names a property of \<^verbatim>\<open>Object.prototype\<close> is not
  mapped to the number of rows that carry it: one row with the value \<^verbatim>\<open>constructor\<close>
  gives a string, the text of the inherited function followed by \<^verbatim>\<open>1\<close>, and one row
  with the value \<^verbatim>\<open>__proto__\<close> gives no entry at all.
\<close>

theorem countryCounts_inherited_name:
  "countryCounts [[key_country \<mapsto> ascii ''constructor'']] (ascii ''constructor'')
     = Some (NativeText (ascii ''constructor'') 1)
   \<and> countryCounts [[key_country \<mapsto> ascii ''constructor'']] (ascii ''constructor'') \<noteq> Some (Num 1)
   \<and> countryCounts [[key_country \<mapsto> ascii ''__proto__'']] = Map.empty"
  by (simp add: countryCounts_def countStep_def setProp_def plusOne_def objectPrototypeNames_def ascii_def)

section \<open>Category-name normalization\<close>

text \<open>
  Claim C7.  The claim as stated fails for a label that contains two of the known names:
  the first test of the chain wins, so a label that contains the second name of the table
  after the first one becomes \<^verbatim>\<open>China\<close>, not \<^verbatim>\<open>United States\<close>.
\<close>

theorem mapName_both_counterexample:
  "includesStr (zh_China @ zh_USA) zh_USA \<and> mapName (zh_China @ zh_USA) \<noteq> ascii ''United States''"
  by (simp add: mapName_def zh_China_def zh_USA_def ascii_def)

text \<open>
  Claim C7, amended.  A label that contains the first name becomes \<^verbatim>\<open>China\<close>; one that
  contains the second and not the first becomes \<^verbatim>\<open>United States\<close>; one that contains
  the third and neither of the others becomes \<^verbatim>\<open>Japan\<close>; a label that contains none of
  them is emitted unchanged.
\<close>

theorem mapName_first_match:
  "(includesStr l zh_China \<longrightarrow> mapName l = ascii ''China'')
   \<and> (\<not> includesStr l zh_China \<and> includesStr l zh_USA \<longrightarrow> mapName l = ascii ''United States'')
   \<and> (\<not> includesStr l zh_China \<and> \<not> includesStr l zh_USA \<and> includesStr l zh_Japan
        \<longrightarrow> mapName l = ascii ''Japan'')
   \<and> (\<not> includesStr l zh_China \<and> \<not> includesStr l zh_USA \<and> \<not> includesStr l zh_Japan
        \<longrightarrow> mapName l = l)"
  by (simp add: mapName_def)

theorem mapName_first_match_witness:
  "includesStr (zh_China @ zh_USA) zh_China \<and> mapName (zh_China @ zh_USA) = ascii ''China''
   \<and> \<not> includesStr zh_USA zh_China \<and> includesStr zh_USA zh_USA
   \<and> mapName zh_USA = ascii ''United States''
   \<and> \<not> includesStr zh_Japan zh_China \<and> \<not> includesStr zh_Japan zh_USA
   \<and> includesStr zh_Japan zh_Japan \<and> mapName zh_Japan = ascii ''Japan''
   \<and> \<not> includesStr (ascii ''Brazil'') zh_China \<and> \<not> includesStr (ascii ''Brazil'') zh_USA
   \<and> \<not> includesStr (ascii ''Brazil'') zh_Japan \<and> mapName (ascii ''Brazil'') = ascii ''Brazil''"
  using mapName_first_match [of "zh_China @ zh_USA"] mapName_first_match [of zh_USA]
    mapName_first_match [of zh_Japan] mapName_first_match [of "ascii ''Brazil''"]
  by (simp add: zh_China_def zh_USA_def zh_Japan_def ascii_def)

section \<open>The rounding of Numbers\<close>

text \<open>
  \<^const>\<open>floorLog2\<close> is the binary exponent of a positive rational, and a finite result of
  \<^const>\<open>roundToDouble\<close> is a binary64 value next to its argument: an integer of at most
  53 bits times the spacing of the argument's binade, at most half a spacing away from
  the argument, and below \<open>2\<^sup>1\<^sup>0\<^sup>2\<^sup>4\<close>.
\<close>

lemma bitLength_nonpos: "n \<le> 0 \<Longrightarrow> bitLength n = 0"
  by (simp add: bitLength.simps [of n])

lemma bitLength_pos: "0 < n \<Longrightarrow> bitLength n = bitLength (n div 2) + 1"
  by (simp add: bitLength.simps [of n])

lemma bitLength_nonneg: "0 \<le> bitLength n"
proof (induction n rule: bitLength.induct)
  case (1 n)
  then show ?case
    by (cases "n \<le> 0") (simp_all add: bitLength.simps [of n])
qed

lemma bitLength_bounds:
  "0 < n \<Longrightarrow> 2 ^ nat (bitLength n - 1) \<le> n \<and> n < 2 ^ nat (bitLength n)"
proof (induction n rule: bitLength.induct)
  case (1 n)
  show ?case
  proof (cases "n = 1")
    case True
    then show ?thesis by (simp add: bitLength_pos bitLength_nonpos)
  next
    case False
    with "1.prems" have h: "0 < n div 2" by simp
    with "1.IH" "1.prems" have IH: "2 ^ nat (bitLength (n div 2) - 1) \<le> n div 2"
      "n div 2 < 2 ^ nat (bitLength (n div 2))"
      by simp_all
    have b: "bitLength n = bitLength (n div 2) + 1"
      using "1.prems" by (rule bitLength_pos)
    have pos: "1 \<le> bitLength (n div 2)"
      using bitLength_pos [OF h] bitLength_nonneg [of "n div 2 div 2"] by simp
    then have e1: "nat (bitLength n - 1) = Suc (nat (bitLength (n div 2) - 1))"
      and e2: "nat (bitLength n) = Suc (nat (bitLength (n div 2)))"
      using b by simp_all
    from IH(1) have "2 * 2 ^ nat (bitLength (n div 2) - 1) \<le> n" by linarith
    moreover from IH(2) have "n < 2 * 2 ^ nat (bitLength (n div 2))" by linarith
    ultimately show ?thesis by (simp add: e1 e2)
  qed
qed

lemma pow2_pos: "0 < pow2 e"
  by (simp add: pow2_def)

lemma pow2_Suc: "pow2 (e + 1) = 2 * pow2 e"
proof (cases "0 \<le> e")
  case True
  then show ?thesis by (simp add: pow2_def nat_add_distrib)
next
  case False
  then have "nat (- e) = Suc (nat (- (e + 1)))" by simp
  with False show ?thesis by (simp add: pow2_def)
qed

lemma floorLog2_bounds:
  assumes "0 < a"
  shows "pow2 (floorLog2 a) \<le> a \<and> a < pow2 (floorLog2 a + 1)"
proof (cases "1 \<le> a")
  case True
  let ?n = "\<lfloor>a\<rfloor>"
  from True have n: "0 < ?n" by simp
  from bitLength_bounds [OF n] have lo: "2 ^ nat (bitLength ?n - 1) \<le> ?n"
    and hi: "?n < 2 ^ nat (bitLength ?n)" by simp_all
  have b1: "1 \<le> bitLength ?n"
    using bitLength_pos [OF n] bitLength_nonneg [of "?n div 2"] by simp
  have "(of_int (2 ^ nat (bitLength ?n - 1)) :: rat) \<le> of_int ?n"
    using lo by (simp only: of_int_le_iff)
  also have "\<dots> \<le> a" by simp
  finally have L: "(2::rat) ^ nat (bitLength ?n - 1) \<le> a" by simp
  from hi have "?n + 1 \<le> 2 ^ nat (bitLength ?n)" by simp
  then have "(of_int (?n + 1) :: rat) \<le> of_int (2 ^ nat (bitLength ?n))"
    by (simp only: of_int_le_iff)
  moreover have "a < of_int (?n + 1)" by linarith
  ultimately have U: "a < (2::rat) ^ nat (bitLength ?n)" by simp
  from True b1 L U show ?thesis
    by (simp add: floorLog2_def pow2_def)
next
  case False
  with assms have a1: "a < 1" by simp
  let ?m = "\<lceil>1 / a\<rceil>"
  have inv: "1 < 1 / a" using assms a1 by simp
  then have m2: "2 \<le> ?m" by linarith
  then have n: "0 < ?m - 1" by simp
  let ?k = "bitLength (?m - 1)"
  from bitLength_bounds [OF n] have lo: "2 ^ nat (?k - 1) \<le> ?m - 1"
    and hi: "?m - 1 < 2 ^ nat ?k" by simp_all
  have k1: "1 \<le> ?k"
    using bitLength_pos [OF n] bitLength_nonneg [of "(?m - 1) div 2"] by simp
  from hi have "?m \<le> 2 ^ nat ?k" by simp
  then have "(of_int ?m :: rat) \<le> of_int (2 ^ nat ?k)" by (simp only: of_int_le_iff)
  then have "(of_int ?m :: rat) \<le> 2 ^ nat ?k" by simp
  moreover have "1 / a \<le> of_int ?m" by (rule le_of_int_ceiling)
  ultimately have "1 / a \<le> (2::rat) ^ nat ?k" by (rule order_trans [rotated])
  then have L: "1 / 2 ^ nat ?k \<le> a"
    using assms by (simp add: field_simps)
  have "(of_int (2 ^ nat (?k - 1)) :: rat) \<le> of_int (?m - 1)"
    using lo by (simp only: of_int_le_iff)
  moreover have "of_int (?m - 1) < 1 / a" by linarith
  ultimately have "(2::rat) ^ nat (?k - 1) < 1 / a" by simp
  then have U: "a < 1 / 2 ^ nat (?k - 1)"
    using assms by (simp add: field_simps)
  have "pow2 (- ?k) = 1 / 2 ^ nat ?k"
    using k1 by (simp add: pow2_def)
  moreover have "pow2 (- ?k + 1) = 1 / 2 ^ nat (?k - 1)"
  proof (cases "?k = 1")
    case True
    then show ?thesis by (simp add: pow2_def)
  next
    case False
    with k1 have "\<not> 0 \<le> - ?k + 1" "nat (- (- ?k + 1)) = nat (?k - 1)" by simp_all
    then show ?thesis by (simp add: pow2_def)
  qed
  ultimately show ?thesis
    using False L U by (simp add: floorLog2_def)
qed


lemma roundHalfEven_near: "\<bar>of_int (roundHalfEven x) - x\<bar> \<le> 1 / 2"
proof -
  have "of_int \<lfloor>x\<rfloor> \<le> x" "x < of_int \<lfloor>x\<rfloor> + 1" by linarith+
  then show ?thesis
    by (auto simp: roundHalfEven_def Let_def)
qed

lemma roundHalfEven_mono_int: "x \<le> of_int m \<Longrightarrow> roundHalfEven x \<le> m"
proof -
  assume a: "x \<le> of_int m"
  then have f: "\<lfloor>x\<rfloor> \<le> m" by (simp add: floor_le_iff)
  show ?thesis
  proof (cases "\<lfloor>x\<rfloor> = m")
    case True
    with a have "x - of_int \<lfloor>x\<rfloor> \<le> 0" by simp
    then show ?thesis using True by (simp add: roundHalfEven_def Let_def)
  next
    case False
    with f have "\<lfloor>x\<rfloor> + 1 \<le> m" by simp
    then show ?thesis by (simp add: roundHalfEven_def Let_def)
  qed
qed

lemma pow2_powi: "pow2 e = 2 powi e"
proof (cases "0 \<le> e")
  case True
  then show ?thesis by (simp add: pow2_def power_int_def)
next
  case False
  have "(1::rat) / 2 ^ nat (- e) = inverse 2 ^ nat (- e)"
    by (simp only: power_inverse inverse_eq_divide power_one_over)
  with False show ?thesis by (simp only: pow2_def power_int_def if_False)
qed

lemma pow2_add: "pow2 (a + b) = pow2 a * pow2 b"
  by (simp only: pow2_powi) (simp add: power_int_add)

lemma pow2_mono: "a \<le> b \<Longrightarrow> pow2 a \<le> pow2 b"
  by (simp only: pow2_powi) (rule power_int_increasing; simp)

lemma roundToDouble_nearest:
  assumes "q \<noteq> 0" and "roundToDouble q = Finite r"
  shows "\<exists>n. 0 \<le> n \<and> n \<le> 2 ^ 53
           \<and> \<bar>r\<bar> = of_int n * pow2 (max (floorLog2 \<bar>q\<bar>) (- 1022) - 52)
           \<and> \<bar>r - q\<bar> \<le> pow2 (max (floorLog2 \<bar>q\<bar>) (- 1022) - 52) / 2
           \<and> \<bar>r\<bar> < pow2 1024"
proof -
  define a where "a = \<bar>q\<bar>"
  define e where "e = max (floorLog2 a) (- 1022)"
  define ulp where "ulp = pow2 (e - 52)"
  define n where "n = roundHalfEven (a / ulp)"
  have a: "0 < a" using assms(1) by (simp add: a_def)
  have ulp: "0 < ulp" by (simp add: ulp_def pow2_pos)
  have eq: "roundToDouble q =
      (if pow2 1024 \<le> of_int n * ulp then (if q < 0 then NegInfinity else PosInfinity)
       else Finite (if q < 0 then - (of_int n * ulp) else of_int n * ulp))"
    using assms(1) unfolding roundToDouble_def Let_def a_def e_def ulp_def n_def
    by (simp only: if_False)
  have fin: "\<not> pow2 1024 \<le> of_int n * ulp"
  proof
    assume "pow2 1024 \<le> of_int n * ulp"
    with eq assms(2) show False by (simp split: if_splits)
  qed
  with eq assms(2) have r: "r = (if q < 0 then - (of_int n * ulp) else of_int n * ulp)"
    by simp
  have n0: "0 \<le> n"
  proof -
    have "0 \<le> a / ulp" using a ulp by simp
    then have "0 \<le> \<lfloor>a / ulp\<rfloor>" by simp
    then show ?thesis by (simp add: n_def roundHalfEven_def Let_def)
  qed
  have "a < pow2 (floorLog2 a + 1)" using floorLog2_bounds [OF a] by simp
  also have "\<dots> \<le> pow2 (e + 1)" by (rule pow2_mono) (simp add: e_def)
  also have "\<dots> = pow2 53 * ulp"
    using pow2_add [of 53 "e - 52"] by (simp add: ulp_def add.commute)
  also have "pow2 53 = 2 ^ 53"
    by (simp add: pow2_def)
  finally have "a / ulp \<le> of_int (2 ^ 53)"
    using ulp by (simp add: field_simps)
  then have n53: "n \<le> 2 ^ 53" unfolding n_def by (rule roundHalfEven_mono_int)
  have "\<bar>of_int n - a / ulp\<bar> \<le> 1 / 2" unfolding n_def by (rule roundHalfEven_near)
  then have "\<bar>of_int n - a / ulp\<bar> * ulp \<le> 1 / 2 * ulp"
    using ulp by (simp only: mult_le_cancel_right_pos)
  moreover have "\<bar>of_int n - a / ulp\<bar> * ulp = \<bar>of_int n * ulp - a\<bar>"
  proof -
    have "\<bar>of_int n - a / ulp\<bar> * ulp = \<bar>(of_int n - a / ulp) * ulp\<bar>"
      using ulp by (simp add: abs_mult)
    also have "(of_int n - a / ulp) * ulp = of_int n * ulp - a"
      using ulp by (simp add: field_simps)
    finally show ?thesis .
  qed
  ultimately have near: "\<bar>of_int n * ulp - a\<bar> \<le> ulp / 2" by simp
  have absr: "\<bar>r\<bar> = of_int n * ulp"
    using n0 ulp r by (simp add: abs_mult)
  have "\<bar>r - q\<bar> = \<bar>of_int n * ulp - a\<bar>"
    using r by (auto simp: a_def)
  with near have "\<bar>r - q\<bar> \<le> ulp / 2" by simp
  moreover from fin absr have "\<bar>r\<bar> < pow2 1024" by simp
  ultimately have "0 \<le> n \<and> n \<le> 2 ^ 53 \<and> \<bar>r\<bar> = of_int n * ulp
      \<and> \<bar>r - q\<bar> \<le> ulp / 2 \<and> \<bar>r\<bar> < pow2 1024"
    using n0 n53 absr by (intro conjI)
  then show ?thesis
    unfolding ulp_def e_def a_def by (rule exI)
qed







section \<open>What \<^verbatim>\<open>parseFloat\<close> reads\<close>
















section \<open>Label and value extraction\<close>

lemmas num_defs = parseFloatCell_def parseFloat_def trimStart_def isTrimChar_def
  parseUnsigned_def isDigit_def digitsValue_def exponentOf_def pow10_def pow2_def
  times100_def roundToDouble_def floorLog2_def roundHalfEven_def toFixed2_def ascii_def
  Let_def

lemma bitLength_numeral [simp]:
  "bitLength (numeral k) = bitLength (numeral k div 2) + 1"
  "bitLength 0 = 0" "bitLength 1 = 1"
  by (simp_all add: bitLength.simps [of "numeral k"] bitLength.simps [of 0] bitLength.simps [of 1])

lemma digitsOf_numeral [simp]:
  "digitsOf (numeral k) =
     (if (numeral k :: int) < 10 then [of_int (48 + numeral k)]
      else digitsOf (numeral k div 10) @ [of_int (48 + numeral k mod 10)])"
  "digitsOf 0 = [48]" "digitsOf 1 = [49]"
  by (simp_all add: digitsOf.simps [of "numeral k"] digitsOf.simps [of 0] digitsOf.simps [of 1])

lemma floor_rat_numeral [simp]: "\<lfloor>numeral a / numeral b :: rat\<rfloor> = numeral a div numeral b"
  by (metis floor_divide_of_int_eq of_int_numeral)

lemma ceiling_rat_numeral [simp]: "\<lceil>numeral a / numeral b :: rat\<rceil> = - (- numeral a div numeral b)"
  using ceiling_divide_eq_div [of "numeral a" "numeral b", where ?'a = rat] by simp

lemma digitsOf_small: "n < 10 \<Longrightarrow> digitsOf n = [of_int (48 + n)]"
  by (simp add: digitsOf.simps [of n])

lemma digitsOf_step: "10 \<le> n \<Longrightarrow> digitsOf n = digitsOf (n div 10) @ [of_int (48 + n mod 10)]"
  by (simp add: digitsOf.simps [of n])

lemma digitsOf_not_Nil: "digitsOf n \<noteq> []"
  by (cases "n < 10") (simp_all add: digitsOf_small digitsOf_step)

lemma digitsOf_two: "10 \<le> n \<Longrightarrow> n < 100 \<Longrightarrow> digitsOf n = [of_int (48 + n div 10), of_int (48 + n mod 10)]"
  by (simp add: digitsOf_step digitsOf_small)

lemma digitsOf_hundred:
  assumes "100 \<le> n"
  shows "digitsOf n = digitsOf (n div 100) @ [of_int (48 + n div 10 mod 10), of_int (48 + n mod 10)]"
proof -
  have "10 \<le> n div 10" using assms by simp
  then have "digitsOf (n div 10) = digitsOf (n div 10 div 10) @ [of_int (48 + n div 10 mod 10)]"
    by (rule digitsOf_step)
  moreover have "n div 10 div 10 = n div 100"
    by (simp add: div_mult2_eq [symmetric])
  ultimately show ?thesis
    using assms by (simp add: digitsOf_step [of n])
qed

lemma toFixed2_finite:
  assumes "\<bar>q\<bar> < 10 ^ 21"
  shows "toFixed2 f (Finite q) =
           (if q < 0 then ascii ''-'' else [])
           @ digitsOf (\<lfloor>\<bar>q\<bar> * 100 + 1 / 2\<rfloor> div 100) @ ascii ''.''
           @ [of_int (48 + \<lfloor>\<bar>q\<bar> * 100 + 1 / 2\<rfloor> div 10 mod 10),
              of_int (48 + \<lfloor>\<bar>q\<bar> * 100 + 1 / 2\<rfloor> mod 10)]"
proof -
  define n where "n = \<lfloor>\<bar>q\<bar> * 100 + 1 / 2\<rfloor>"
  have n0: "0 \<le> n" unfolding n_def by simp
  let ?m = "digitsOf n"
  let ?m' = "if length ?m \<le> 2 then replicate (3 - length ?m) 0x30 @ ?m else ?m"
  have split: "take (length ?m' - 2) ?m' @ ascii ''.'' @ drop (length ?m' - 2) ?m'
      = digitsOf (n div 100) @ ascii ''.'' @ [of_int (48 + n div 10 mod 10), of_int (48 + n mod 10)]"
  proof -
    consider "n < 10" | "10 \<le> n" "n < 100" | "100 \<le> n" by linarith
    then show ?thesis
    proof cases
      case 1
      with n0 have "n div 100 = 0" "n div 10 = 0" "n mod 10 = n" by simp_all
      with 1 show ?thesis
        by (simp add: digitsOf_small numeral_3_eq_3)
    next
      case 2
      with n0 have "n div 100 = 0" "n div 10 mod 10 = n div 10" by simp_all
      with 2 show ?thesis
        by (simp add: digitsOf_two digitsOf_small)
    next
      case 3
      then have "digitsOf n = digitsOf (n div 100) @ [of_int (48 + n div 10 mod 10), of_int (48 + n mod 10)]"
        by (rule digitsOf_hundred)
      moreover have "digitsOf (n div 100) \<noteq> []" by (rule digitsOf_not_Nil)
      ultimately show ?thesis
        by (cases "digitsOf (n div 100)") simp_all
    qed
  qed
  show ?thesis
    using assms split
    by (simp add: toFixed2_def Let_def n_def [symmetric] del: One_nat_def)
qed





lemma roundToDouble_not_NaN: "roundToDouble q \<noteq> NaN"
  by (simp add: roundToDouble_def Let_def)

lemma parseUnsigned_None_iff:
  "parseUnsigned b = None \<longleftrightarrow>
     \<not> (b \<noteq> [] \<and> isDigit (hd b)) \<and> \<not> (\<exists>d t. b = 0x2E # d # t \<and> isDigit d)"
proof (cases b)
  case Nil
  then show ?thesis by (simp add: parseUnsigned_def)
next
  case (Cons c t)
  show ?thesis
  proof (cases "isDigit c")
    case True
    with Cons show ?thesis by (simp add: parseUnsigned_def Let_def)
  next
    case False
    with Cons show ?thesis
      by (cases t) (auto simp: parseUnsigned_def Let_def isDigit_def)
  qed
qed



lemma parseFloat_0_12:
  "parseFloat (ascii ''0.12'') = Finite (1080863910568919 / 9007199254740992)"
  by (simp add: num_defs)

lemma times100_0_12:
  "times100 (Finite (1080863910568919 / 9007199254740992)) = Finite 12"
  by (simp add: num_defs)


lemma percentText_0_12: "percentText f (Some (ascii ''0.12'')) = ascii ''12.00''"
proof -
  have "toFixed2 f (Finite 12) = ascii ''12.00''"
    by (simp add: toFixed2_finite ascii_def)
  then show ?thesis
    by (simp add: percentText_def parseFloatCell_def parseFloat_0_12 times100_0_12)
qed










lemma parseFloatCell_undefined: "parseFloatCell None = NaN"
  by (simp add: num_defs)

text \<open>
  Claim C8.  A row whose rate cell does not parse as a number (\<^verbatim>\<open>parseFloat\<close> gives
  \<^verbatim>\<open>NaN\<close>) is neither skipped nor an error: both output sequences keep the length of
  the input, the value at the row's position is the text \<^verbatim>\<open>NaN\<close>, and the label at
  that position is the row's label.
\<close>

theorem unparsable_cell_gives_NaN:
  assumes "i < length data" and "parseFloatCell ((data ! i) key_rate) = NaN"
  shows "length (avgProfitRates f data) = length data
       \<and> avgProfitRates f data ! i = ascii ''NaN''
       \<and> length (industries data) = length data
       \<and> industries data ! i = (data ! i) key_industry"
  using assms by (simp add: avgProfitRates_def industries_def percentText_def times100_def toFixed2_def)

theorem unparsable_cell_gives_NaN_witness:
  "(1::nat) < length [[key_industry \<mapsto> ascii ''Tech'', key_rate \<mapsto> ascii ''0.12''],
                      [key_industry \<mapsto> ascii ''Retail'', key_rate \<mapsto> ascii ''n/a'']]
   \<and> parseFloatCell (([[key_industry \<mapsto> ascii ''Tech'', key_rate \<mapsto> ascii ''0.12''],
                        [key_industry \<mapsto> ascii ''Retail'', key_rate \<mapsto> ascii ''n/a'']] ! 1) key_rate)
       = NaN
   \<and> avgProfitRates (\<lambda>_. []) [[key_industry \<mapsto> ascii ''Tech'', key_rate \<mapsto> ascii ''0.12''],
                              [key_industry \<mapsto> ascii ''Retail'', key_rate \<mapsto> ascii ''n/a'']]
       = [ascii ''12.00'', ascii ''NaN'']
   \<and> industries [[key_industry \<mapsto> ascii ''Tech'', key_rate \<mapsto> ascii ''0.12''],
                  [key_industry \<mapsto> ascii ''Retail'', key_rate \<mapsto> ascii ''n/a'']]
       = [Some (ascii ''Tech''), Some (ascii ''Retail'')]"
proof -
  let ?data = "[[key_industry \<mapsto> ascii ''Tech'', key_rate \<mapsto> ascii ''0.12''],
                [key_industry \<mapsto> ascii ''Retail'', key_rate \<mapsto> ascii ''n/a'']]"
  have len: "(1::nat) < length ?data" by simp
  have nan: "parseFloatCell ((?data ! 1) key_rate) = NaN"
    by (simp add: num_defs key_industry_def key_rate_def)
  have first: "avgProfitRates (\<lambda>_. []) ?data ! 0 = ascii ''12.00''"
    by (simp add: avgProfitRates_def percentText_0_12)
  have labels: "industries ?data = [Some (ascii ''Tech''), Some (ascii ''Retail'')]"
    by (simp add: industries_def key_industry_def key_rate_def)
  from unparsable_cell_gives_NaN [OF len nan, of "\<lambda>_. []"]
  have "length (avgProfitRates (\<lambda>_. []) ?data) = 2"
    and "avgProfitRates (\<lambda>_. []) ?data ! 1 = ascii ''NaN''"
    by simp_all
  with first have "avgProfitRates (\<lambda>_. []) ?data = [ascii ''12.00'', ascii ''NaN'']"
    by (cases "avgProfitRates (\<lambda>_. []) ?data"; cases "tl (avgProfitRates (\<lambda>_. []) ?data)") auto
  with len nan labels show ?thesis by simp
qed

end
